theory Spec2Isabelle
  imports Complex_Main "HOL-Library.Word"
begin

section \<open>The vision detector sidecar (priv/vision\_detector.py)\<close>

text \<open>
  A shallow embedding of class \<open>VisionDetector\<close>. Python floats are modelled by exact
  real arithmetic: the theorems are about the arithmetic the code writes down, not
  about the rounding error of IEEE doubles, and the counterexamples are at inputs
  where doubles give the same values. Strings are lists of 8-bit characters, so a
  line of the command channel is taken to consist of code points below 256.
\<close>

subsection \<open>String operations of the command channel\<close>

text \<open>\<open>str.isspace\<close> on one character, for the code points below 256.\<close>

definition py_isspace :: "char \<Rightarrow> bool" where
  "py_isspace c =
     ((of_char c :: nat) \<in> set [9, 10, 11, 12, 13, 28, 29, 30, 31, 32, 133, 160])"

text \<open>\<open>str.strip()\<close>: whitespace removed at both ends.\<close>

definition strip :: "string \<Rightarrow> string" where
  "strip s = rev (dropWhile py_isspace (rev (dropWhile py_isspace s)))"

text \<open>\<open>str.startswith(p)\<close>.\<close>

definition startswith :: "string \<Rightarrow> string \<Rightarrow> bool" where
  "startswith s p = (take (length p) s = p)"

text \<open>\<open>str.split(sep)\<close> for a separator of one character: never an empty list.\<close>

fun split :: "char \<Rightarrow> string \<Rightarrow> string list" where
  "split sep [] = [[]]"
| "split sep (c # cs) =
     (if c = sep then [] # split sep cs
      else (case split sep cs of
              [] \<Rightarrow> [[c]]
            | t # ts \<Rightarrow> (c # t) # ts))"

subsection \<open>External capabilities\<close>

datatype error = CvError | PredictError | KeyError | ZeroDivisionError

text \<open>One row of \<open>results[0].boxes\<close>: class id, confidence and corner coordinates,
  all floats in the engine's tensors.\<close>

record box =
  cls :: real
  bconf :: real
  bx1 :: real
  by1 :: real
  bx2 :: real
  by2 :: real

text \<open>\<open>results[0]\<close>: the dictionary of class names and the boxes in engine order.\<close>

record result =
  names :: "int \<rightharpoonup> string"
  boxes :: "box list"

text \<open>A single-channel 8-bit image, as its list of rows.\<close>

type_synonym gray = "8 word list list"

text \<open>
  What the code calls and does not define: the built-ins \<open>float\<close> and \<open>int\<close> on
  strings (\<open>None\<close> where they raise \<open>ValueError\<close>, the only exception they raise on a
  string), \<open>model.predict\<close> with the confidence threshold, image size and class
  filter, and \<open>cv2.cvtColor\<close> followed by \<open>cv2.GaussianBlur\<close>. The type \<open>'c\<close> is the
  threshold as \<open>float\<close> parses it, \<open>'fr\<close> a decoded frame.
\<close>

record ('fr, 'c) ext =
  py_float :: "string \<Rightarrow> 'c option"
  py_int :: "string \<Rightarrow> int option"
  predict :: "'c \<Rightarrow> int \<Rightarrow> int list option \<Rightarrow> 'fr \<Rightarrow> error + result"
  gray_blur :: "'fr \<Rightarrow> error + gray"

subsection \<open>The detector object\<close>

record 'c detector =
  rtsp_url :: string
  conf :: 'c
  imgsz :: int
  target_classes :: "int list option"
  running :: bool
  frame_count :: int
  prev_gray :: "gray option"
  fps_ema :: real

text \<open>\<open>__init__\<close>: the fields as the constructor sets them.\<close>

definition init :: "string \<Rightarrow> 'c \<Rightarrow> int list option \<Rightarrow> int \<Rightarrow> 'c detector" where
  "init url c classes sz =
     \<lparr>rtsp_url = url, conf = c, imgsz = sz, target_classes = classes,
      running = True, frame_count = 0, prev_gray = None, fps_ema = 0\<rparr>"

subsection \<open>The command listener\<close>

text \<open>
  What one step of \<open>for line in sys.stdin\<close> yields: a line, the end of input, or an
  exception raised by the read itself.
\<close>

datatype stdin_read = Line string | Eof | ReadError

text \<open>
  The list comprehension \<open>[int(c) for c in ...]\<close>: the first token that \<open>int\<close>
  rejects raises, and nothing is assigned.
\<close>

fun parse_classes :: "(string \<Rightarrow> int option) \<Rightarrow> string list \<Rightarrow> int list option" where
  "parse_classes f [] = Some []"
| "parse_classes f (t # ts) =
     (case f t of
        None \<Rightarrow> None
      | Some n \<Rightarrow> (case parse_classes f ts of
                    None \<Rightarrow> None
                  | Some ns \<Rightarrow> Some (n # ns)))"

text \<open>
  The body of the loop for one line. The second component tells whether the loop
  goes on (\<open>False\<close> is the \<open>break\<close> after \<open>STOP\<close>).
\<close>

definition handle_line :: "('fr, 'c) ext \<Rightarrow> string \<Rightarrow> 'c detector \<Rightarrow> 'c detector \<times> bool" where
  "handle_line X line s =
     (let cmd = strip line in
      if cmd = ''STOP'' then (s\<lparr>running := False\<rparr>, False)
      else if startswith cmd ''CONF:'' then
        (case py_float X (drop 5 cmd) of
           Some v \<Rightarrow> (s\<lparr>conf := v\<rparr>, True)
         | None \<Rightarrow> (s, True))
      else if startswith cmd ''CLASSES:'' then
        (case parse_classes (py_int X) (split (CHR '','') (drop 8 cmd)) of
           Some ns \<Rightarrow> (s\<lparr>target_classes := Some ns\<rparr>, True)
         | None \<Rightarrow> (s, True))
      else (s, True))"

text \<open>
  One read of the listener: a line is handled, the end of input leaves the loop, an
  exception of the read reaches \<open>except Exception\<close>, which clears \<open>running\<close>.
\<close>

fun listen_step :: "('fr, 'c) ext \<Rightarrow> stdin_read \<Rightarrow> 'c detector \<Rightarrow> 'c detector \<times> bool" where
  "listen_step X (Line l) s = handle_line X l s"
| "listen_step X Eof s = (s, False)"
| "listen_step X ReadError s = (s\<lparr>running := False\<rparr>, False)"

text \<open>
  \<open>listen_stdin\<close> on the reads that the input channel delivers. When the list is used
  up the listener is waiting for the next read, and the state so far is returned.
\<close>

fun listen_stdin :: "('fr, 'c) ext \<Rightarrow> stdin_read list \<Rightarrow> 'c detector \<Rightarrow> 'c detector" where
  "listen_stdin X [] s = s"
| "listen_stdin X (r # rs) s =
     (case listen_step X r s of
        (s', True) \<Rightarrow> listen_stdin X rs s'
      | (s', False) \<Rightarrow> s')"

subsection \<open>The motion scorer\<close>

text \<open>\<open>cv2.absdiff\<close> on one pair of 8-bit pixels.\<close>

definition absdiff8 :: "8 word \<Rightarrow> 8 word \<Rightarrow> 8 word" where
  "absdiff8 a b = (if a \<le> b then b - a else a - b)"

text \<open>\<open>cv2.absdiff\<close> on two images: it raises when their shapes differ.\<close>

definition absdiff :: "gray \<Rightarrow> gray \<Rightarrow> error + gray" where
  "absdiff a b =
     (if map length a = map length b
      then Inr (map (\<lambda>(r, r'). map (\<lambda>(p, q). absdiff8 p q) (zip r r')) (zip a b))
      else Inl CvError)"

text \<open>\<open>np.mean\<close> of an image with at least one pixel.\<close>

definition np_mean :: "gray \<Rightarrow> real" where
  "np_mean g = real (sum_list (map unat (concat g))) / real (length (concat g))"

text \<open>
  The first two lines of \<open>compute_motion\<close>. \<open>cv2.cvtColor\<close> raises on an image
  without pixels, so a result without pixels is an error here as well.
\<close>

definition to_gray :: "('fr, 'c) ext \<Rightarrow> 'fr \<Rightarrow> error + gray" where
  "to_gray X frame =
     (case gray_blur X frame of
        Inl e \<Rightarrow> Inl e
      | Inr g \<Rightarrow> if concat g = [] then Inl CvError else Inr g)"

text \<open>
  \<open>compute_motion\<close>: the score, or the exception raised, and the detector as the
  call leaves it.
\<close>

definition compute_motion ::
  "('fr, 'c) ext \<Rightarrow> 'fr \<Rightarrow> 'c detector \<Rightarrow> (error + real) \<times> 'c detector" where
  "compute_motion X frame s =
     (case to_gray X frame of
        Inl e \<Rightarrow> (Inl e, s)
      | Inr g \<Rightarrow>
          (case prev_gray s of
             None \<Rightarrow> (Inr 0, s\<lparr>prev_gray := Some g\<rparr>)
           | Some prev \<Rightarrow>
               (case absdiff prev g of
                  Inl e \<Rightarrow> (Inl e, s)
                | Inr delta \<Rightarrow> (Inr (np_mean delta / 255), s\<lparr>prev_gray := Some g\<rparr>))))"

subsection \<open>The rate estimator\<close>

text \<open>Division of floats: it raises on a zero divisor.\<close>

definition py_div :: "real \<Rightarrow> real \<Rightarrow> error + real" where
  "py_div a b = (if b = 0 then Inl ZeroDivisionError else Inr (a / b))"

text \<open>\<open>fps = 1.0 / elapsed if elapsed > 0 else 0\<close>.\<close>

definition inst_rate :: "real \<Rightarrow> error + real" where
  "inst_rate elapsed = (if elapsed > 0 then py_div 1 elapsed else Inr 0)"

text \<open>
  \<open>self.fps_ema = 0.9 * self.fps_ema + 0.1 * fps if self.fps_ema > 0 else fps\<close>:
  the new value of \<open>fps_ema\<close> from the old one and the elapsed time.
\<close>

definition update_rate :: "real \<Rightarrow> real \<Rightarrow> error + real" where
  "update_rate ema elapsed =
     (case inst_rate elapsed of
        Inl x \<Rightarrow> Inl x
      | Inr r \<Rightarrow> Inr (if ema > 0 then 9 / 10 * ema + 1 / 10 * r else r))"

text \<open>
  The estimate after a run of elapsed-time samples, from the constructor's \<open>0.0\<close>;
  an exception at one sample ends the run.
\<close>

definition rate_after :: "real list \<Rightarrow> error + real" where
  "rate_after samples =
     foldl (\<lambda>acc elapsed. case acc of Inl x \<Rightarrow> Inl x | Inr ema \<Rightarrow> update_rate ema elapsed)
       (Inr 0) samples"

subsection \<open>Number conversions\<close>

text \<open>\<open>int(x)\<close> on a float: truncation towards zero.\<close>

definition py_trunc :: "real \<Rightarrow> int" where
  "py_trunc x = (if x < 0 then \<lceil>x\<rceil> else \<lfloor>x\<rfloor>)"

text \<open>Rounding to the nearest integer, a tie going to the even one.\<close>

definition round_half_even :: "real \<Rightarrow> int" where
  "round_half_even x =
     (let f = \<lfloor>x\<rfloor>; d = x - of_int f
      in if d < 1 / 2 then f
         else if 1 / 2 < d then f + 1
         else if even f then f else f + 1)"

text \<open>\<open>round(x, n)\<close> on a float, for \<open>n \<ge> 0\<close> digits after the point.\<close>

definition py_round :: "real \<Rightarrow> nat \<Rightarrow> real" where
  "py_round x n = of_int (round_half_even (x * 10 ^ n)) / 10 ^ n"

text \<open>A number with at most \<open>n\<close> digits after the decimal point.\<close>

definition is_decimal :: "nat \<Rightarrow> real \<Rightarrow> bool" where
  "is_decimal n x = (of_int \<lfloor>x * 10 ^ n\<rfloor> = x * 10 ^ n)"

subsection \<open>The frame pipeline\<close>

record detection =
  d_class :: string
  d_conf :: real
  d_bbox :: "int list"
  d_area :: int

record event =
  ts :: int
  fps :: real
  detections :: "detection list"
  motion :: real
  frame :: int
  inference_ms :: real

text \<open>
  The clock readings one call of \<open>process_frame\<close> takes: \<open>time.monotonic()\<close> before
  and after, and \<open>time.time()\<close> for the timestamp.
\<close>

record clock =
  t0 :: real
  t1 :: real
  wall :: real

text \<open>The body of \<open>for box in results[0].boxes\<close>; the lookup of the name may raise.\<close>

definition mk_detection :: "(int \<rightharpoonup> string) \<Rightarrow> box \<Rightarrow> error + detection" where
  "mk_detection nm b =
     (case nm (py_trunc (cls b)) of
        None \<Rightarrow> Inl KeyError
      | Some cls_name \<Rightarrow>
          Inr \<lparr>d_class = cls_name,
               d_conf = py_round (bconf b) 3,
               d_bbox = [py_trunc (bx1 b), py_trunc (by1 b), py_trunc (bx2 b), py_trunc (by2 b)],
               d_area = py_trunc ((bx2 b - bx1 b) * (by2 b - by1 b))\<rparr>)"

fun mk_detections :: "(int \<rightharpoonup> string) \<Rightarrow> box list \<Rightarrow> error + detection list" where
  "mk_detections nm [] = Inr []"
| "mk_detections nm (b # bs) =
     (case mk_detection nm b of
        Inl e \<Rightarrow> Inl e
      | Inr d \<Rightarrow> (case mk_detections nm bs of
                    Inl e \<Rightarrow> Inl e
                  | Inr ds \<Rightarrow> Inr (d # ds)))"

text \<open>
  \<open>process_frame\<close>: the event, or the exception that leaves the method, and the
  detector as the call leaves it.
\<close>

definition process_frame ::
  "('fr, 'c) ext \<Rightarrow> 'fr \<Rightarrow> clock \<Rightarrow> 'c detector \<Rightarrow> (error + event) \<times> 'c detector" where
  "process_frame X fr clk s =
     (case predict X (conf s) (imgsz s) (target_classes s) fr of
        Inl e \<Rightarrow> (Inl e, s)
      | Inr res \<Rightarrow>
          (case compute_motion X fr s of
             (Inl e, s1) \<Rightarrow> (Inl e, s1)
           | (Inr m, s1) \<Rightarrow>
               (case mk_detections (names res) (boxes res) of
                  Inl e \<Rightarrow> (Inl e, s1)
                | Inr ds \<Rightarrow>
                    (let elapsed = t1 clk - t0 clk in
                     case update_rate (fps_ema s1) elapsed of
                       Inl e \<Rightarrow> (Inl e, s1)
                     | Inr ema \<Rightarrow>
                         (let s2 = s1\<lparr>fps_ema := ema, frame_count := frame_count s1 + 1\<rparr>
                          in (Inr \<lparr>ts = py_trunc (wall clk * 1000),
                                   fps = py_round (fps_ema s2) 1,
                                   detections = ds,
                                   motion = py_round m 4,
                                   frame = frame_count s2,
                                   inference_ms = py_round (elapsed * 1000) 1\<rparr>,
                              s2))))))"

text \<open>
  The states of the detector that one call of \<open>process_frame\<close> passes through, in
  order: as the call finds it, after \<open>compute_motion\<close>, after the assignment to
  \<open>fps_ema\<close>, and after \<open>frame_count += 1\<close>. An exception ends the list at the state
  in which it is raised.
\<close>

definition frame_stages ::
  "('fr, 'c) ext \<Rightarrow> 'fr \<Rightarrow> clock \<Rightarrow> 'c detector \<Rightarrow> 'c detector list" where
  "frame_stages X fr clk s =
     s # (case predict X (conf s) (imgsz s) (target_classes s) fr of
            Inl e \<Rightarrow> []
          | Inr res \<Rightarrow>
              (case compute_motion X fr s of
                 (Inl e, s1) \<Rightarrow> []
               | (Inr m, s1) \<Rightarrow>
                   s1 # (case mk_detections (names res) (boxes res) of
                           Inl e \<Rightarrow> []
                         | Inr ds \<Rightarrow>
                             (case update_rate (fps_ema s1) (t1 clk - t0 clk) of
                                Inl e \<Rightarrow> []
                              | Inr ema \<Rightarrow>
                                  [s1\<lparr>fps_ema := ema\<rparr>,
                                   s1\<lparr>fps_ema := ema, frame_count := frame_count s1 + 1\<rparr>]))))"

text \<open>
  The detector when a \<open>KeyboardInterrupt\<close> lands in \<open>process_frame\<close>, or after it and
  before the event is written, at stage \<open>k\<close> of the call or at the last stage that
  the call reaches.
\<close>

definition interrupted_frame ::
  "('fr, 'c) ext \<Rightarrow> 'fr \<Rightarrow> clock \<Rightarrow> 'c detector \<Rightarrow> nat \<Rightarrow> 'c detector" where
  "interrupted_frame X fr clk s k =
     (let stages = frame_stages X fr clk s in stages ! min k (length stages - 1))"

subsection \<open>The supervisor loop\<close>

datatype message =
    StatusReady string
  | FrameEvent event
  | ErrFrameDrop int
  | ErrCannotOpen string
  | StatusStopped

text \<open>What \<open>run\<close> does to the outside, in program order.\<close>

datatype effect =
    StartListener
  | OpenCapture string
  | SetBufferSize nat
  | Emit message
  | Sleep nat
  | Release

text \<open>
  Where the main thread is: in the \<open>while\<close> loop, returned from \<open>run\<close> after the
  \<open>finally\<close> block, left by an exception after the \<open>finally\<close> block, or ended by
  \<open>sys.exit\<close>.
\<close>

datatype status = Looping | Returned | Raised error | Exited nat

record 'c proc =
  self :: "'c detector"
  out :: "effect list"
  status :: status
  listening :: bool

text \<open>
  The start of \<open>run\<close>, up to the \<open>try\<close>; \<open>opened\<close> is what \<open>cap.isOpened()\<close> answers.
\<close>

definition run_start :: "bool \<Rightarrow> 'c detector \<Rightarrow> 'c proc" where
  "run_start opened s =
     (if \<not> opened
      then \<lparr>self = s,
            out = [StartListener, OpenCapture (rtsp_url s), Emit (ErrCannotOpen (rtsp_url s))],
            status = Exited 1, listening = True\<rparr>
      else \<lparr>self = s,
            out = [StartListener, OpenCapture (rtsp_url s), SetBufferSize 1],
            status = Looping, listening = True\<rparr>)"

text \<open>The \<open>finally\<close> block.\<close>

definition finally_block :: "effect list" where
  "finally_block = [Release, Emit StatusStopped]"

text \<open>The branch \<open>if not ret\<close> of the loop body.\<close>

definition reconnect :: "'c detector \<Rightarrow> effect list" where
  "reconnect s =
     [Emit (ErrFrameDrop (frame_count s)), Sleep 1, Release,
      OpenCapture (rtsp_url s), SetBufferSize 1]"

text \<open>
  One pass through \<open>while self.running\<close>: the test of the flag, then the body with
  what \<open>cap.read()\<close> returns (\<open>None\<close> when \<open>ret\<close> is false).
\<close>

definition loop_iter :: "('fr, 'c) ext \<Rightarrow> ('fr \<times> clock) option \<Rightarrow> 'c proc \<Rightarrow> 'c proc" where
  "loop_iter X r p =
     (if \<not> running (self p)
      then p\<lparr>out := out p @ finally_block, status := Returned\<rparr>
      else (case r of
              None \<Rightarrow> p\<lparr>out := out p @ reconnect (self p)\<rparr>
            | Some (fr, clk) \<Rightarrow>
                (case process_frame X fr clk (self p) of
                   (Inl e, s') \<Rightarrow> p\<lparr>self := s', out := out p @ finally_block, status := Raised e\<rparr>
                 | (Inr ev, s') \<Rightarrow> p\<lparr>self := s', out := out p @ [Emit (FrameEvent ev)]\<rparr>)))"

text \<open>
  The two threads interleave at the grain of one read of the listener and one pass
  of the loop. A \<open>KeyboardInterrupt\<close> may arrive in the main thread between two passes
  (\<open>Interrupt\<close>) or inside a pass (\<open>InterruptIn\<close>, with what \<open>cap.read()\<close> returns in
  that pass and how far the pass has come: the number of effects done in the branch
  \<open>if not ret\<close>, the stage of \<open>process_frame\<close> otherwise).
\<close>

datatype 'fr action =
    Stdin stdin_read
  | Iter "('fr \<times> clock) option"
  | Interrupt
  | InterruptIn "('fr \<times> clock) option" nat

text \<open>
  One action. Once the main thread has left \<open>run\<close> the process ends, and the daemon
  thread of the listener with it.
\<close>

fun step :: "('fr, 'c) ext \<Rightarrow> 'fr action \<Rightarrow> 'c proc \<Rightarrow> 'c proc" where
  "step X (Stdin r) p =
     (if status p = Looping \<and> listening p
      then (case listen_step X r (self p) of (s', go) \<Rightarrow> p\<lparr>self := s', listening := go\<rparr>)
      else p)"
| "step X (Iter r) p = (if status p = Looping then loop_iter X r p else p)"
| "step X Interrupt p =
     (if status p = Looping then p\<lparr>out := out p @ finally_block, status := Returned\<rparr> else p)"
| "step X (InterruptIn r k) p =
     (if status p = Looping
      then (if \<not> running (self p)
            then p\<lparr>out := out p @ finally_block, status := Returned\<rparr>
            else (case r of
                    None \<Rightarrow>
                      p\<lparr>out := out p @ take k (reconnect (self p)) @ finally_block,
                        status := Returned\<rparr>
                  | Some (fr, clk) \<Rightarrow>
                      p\<lparr>self := interrupted_frame X fr clk (self p) k,
                        out := out p @ finally_block, status := Returned\<rparr>))
      else p)"

fun exec :: "('fr, 'c) ext \<Rightarrow> 'fr action list \<Rightarrow> 'c proc \<Rightarrow> 'c proc" where
  "exec X [] p = p"
| "exec X (a # as) p = exec X as (step X a p)"

subsection \<open>Invariants of the supervisor loop\<close>

text \<open>The frame numbers of the frame events in a trace, in order.\<close>

fun frame_numbers :: "effect list \<Rightarrow> int list" where
  "frame_numbers [] = []"
| "frame_numbers (Emit (FrameEvent ev) # es) = frame ev # frame_numbers es"
| "frame_numbers (e # es) = frame_numbers es"

text \<open>
  The frame events emitted so far are numbered from 1 on without a gap. The counter
  is their number; only a main thread that was interrupted between the increment
  and the write of the event has left the loop with a counter one ahead.
\<close>

definition numbered :: "'c proc \<Rightarrow> bool" where
  "numbered p =
     (frame_numbers (out p) = [1..int (length (frame_numbers (out p)))] \<and>
      (if status p = Looping
       then frame_count (self p) = int (length (frame_numbers (out p)))
       else frame_count (self p) = int (length (frame_numbers (out p))) \<or>
            frame_count (self p) = int (length (frame_numbers (out p))) + 1))"

text \<open>A main thread that has left the loop has run the \<open>finally\<close> block last.\<close>

definition closed_down :: "'c proc \<Rightarrow> bool" where
  "closed_down p =
     (status p = Looping \<or> (\<exists>pre. out p = pre @ [Release, Emit StatusStopped]))"

subsection \<open>A test double\<close>

text \<open>
  Collaborators for running the model on concrete inputs: frames that are their own
  grayscale image, an engine that reports one fixed detection for every frame, and
  parsers that know a few literals.
\<close>

definition stub :: "(gray, real) ext" where
  "stub =
     \<lparr>py_float = map_of [(''0.5'', 1 / 2), (''0.35'', 7 / 20)],
      py_int = map_of [(''0'', 0), (''1'', 1), (''2'', 2)],
      predict = (\<lambda>c sz cl fr.
        Inr \<lparr>names = [0 \<mapsto> ''person''],
             boxes = [\<lparr>cls = 0, bconf = 87 / 100,
                       bx1 = 241 / 2, by1 = 181 / 4, bx2 = 1363 / 4, by2 = 360\<rparr>]\<rparr>),
      gray_blur = Inr\<rparr>"

text \<open>The same with an engine that fails on every frame.\<close>

definition broken :: "(gray, real) ext" where
  "broken = stub\<lparr>predict := (\<lambda>c sz cl fr. Inl PredictError)\<rparr>"

text \<open>The detector as \<open>main\<close> builds it from the default arguments.\<close>

definition detector0 :: "real detector" where
  "detector0 = init ''rtsp://camera/stream'' (7 / 20) None 640"

text \<open>
  Two grayscale frames of two rows and two columns, one pixel brighter and one
  darker in the second, and a frame of another shape.
\<close>

definition frame1 :: gray where
  "frame1 = [[10, 200], [0, 7]]"

definition frame2 :: gray where
  "frame2 = [[14, 190], [0, 7]]"

definition frame_wide :: gray where
  "frame_wide = [[1, 2, 3]]"

text \<open>A quarter of a second of processing time.\<close>

definition clock0 :: clock where
  "clock0 = \<lparr>t0 = 10, t1 = 41 / 4, wall = 1707840000125 / 1000\<rparr>"

section \<open>Properties of the command listener\<close>

lemma parse_classes_None: "parse_classes f toks = None \<longleftrightarrow> (\<exists>t \<in> set toks. f t = None)"
  by (induction toks) (auto split: option.splits)

lemma startswith_append: "startswith s p \<longleftrightarrow> (\<exists>r. s = p @ r)"
proof
  assume "startswith s p"
  then have "s = p @ drop (length p) s"
    by (metis startswith_def append_take_drop_id)
  then show "\<exists>r. s = p @ r" ..
next
  assume "\<exists>r. s = p @ r"
  then show "startswith s p" by (auto simp: startswith_def)
qed

lemma classes_not_conf: "startswith s ''CLASSES:'' \<Longrightarrow> \<not> startswith s ''CONF:''"
  by (auto simp: startswith_append)

lemma conf_not_stop: "startswith s ''CONF:'' \<Longrightarrow> s \<noteq> ''STOP''"
  by (auto simp: startswith_append)

lemma classes_not_stop: "startswith s ''CLASSES:'' \<Longrightarrow> s \<noteq> ''STOP''"
  by (auto simp: startswith_append)

text \<open>
  Claim C1, as the code has it. An exception raised by a read of the command channel
  reaches \<open>except Exception\<close>: the listener exits and \<open>running\<close> is cleared, whatever it
  was, and no other field changes. Only the clean end of input leaves the detector,
  and so \<open>running\<close>, as it was.
\<close>

theorem listen_stdin_read_failure:
  "listen_stdin X (ReadError # rs) s = s\<lparr>running := False\<rparr> \<and>
   listen_stdin X (Eof # rs) s = s"
  by simp

text \<open>
  Claim C1 as the specification words it (a read failure leaves \<open>running\<close> unchanged)
  fails on the freshly constructed detector, whose flag is set.
\<close>

theorem listen_stdin_read_failure_counterexample:
  "running (listen_stdin stub [ReadError] detector0) \<noteq> running detector0"
  by (simp add: detector0_def init_def)

text \<open>
  Claim C4. A line whose payload \<open>float\<close> rejects after \<open>CONF:\<close>, a line with a token
  that \<open>int\<close> rejects after \<open>CLASSES:\<close>, and a line that is no command at all are
  each skipped: the listener goes on with the next read from an unchanged detector
  (threshold, class filter and every other field), and no exception leaves the loop.
\<close>

theorem malformed_command_ignored:
  "(startswith (strip l) ''CONF:'' \<and> py_float X (drop 5 (strip l)) = None
      \<longrightarrow> listen_stdin X (Line l # rs) s = listen_stdin X rs s) \<and>
   (startswith (strip l) ''CLASSES:'' \<and>
      (\<exists>t \<in> set (split (CHR '','') (drop 8 (strip l))). py_int X t = None)
      \<longrightarrow> listen_stdin X (Line l # rs) s = listen_stdin X rs s) \<and>
   (strip l \<noteq> ''STOP'' \<and> \<not> startswith (strip l) ''CONF:'' \<and> \<not> startswith (strip l) ''CLASSES:''
      \<longrightarrow> listen_stdin X (Line l # rs) s = listen_stdin X rs s)"
proof (intro conjI impI)
  assume a: "startswith (strip l) ''CONF:'' \<and> py_float X (drop 5 (strip l)) = None"
  then have "strip l \<noteq> ''STOP''" by (simp add: conf_not_stop)
  with a show "listen_stdin X (Line l # rs) s = listen_stdin X rs s"
    by (simp add: handle_line_def)
next
  assume a: "startswith (strip l) ''CLASSES:'' \<and>
      (\<exists>t \<in> set (split (CHR '','') (drop 8 (strip l))). py_int X t = None)"
  then have n: "strip l \<noteq> ''STOP''" "\<not> startswith (strip l) ''CONF:''"
    by (simp_all add: classes_not_conf classes_not_stop)
  from a have "parse_classes (py_int X) (split (CHR '','') (drop 8 (strip l))) = None"
    by (simp add: parse_classes_None)
  with a n show "listen_stdin X (Line l # rs) s = listen_stdin X rs s"
    by (simp add: handle_line_def)
next
  assume "strip l \<noteq> ''STOP'' \<and> \<not> startswith (strip l) ''CONF:'' \<and> \<not> startswith (strip l) ''CLASSES:''"
  then show "listen_stdin X (Line l # rs) s = listen_stdin X rs s"
    by (simp add: handle_line_def)
qed

theorem malformed_command_ignored_witness:
  "listen_stdin stub [Line ''CONF:abc\<newline>'', Line ''CLASSES:0,x\<newline>'', Line ''PAUSE\<newline>''] detector0 = detector0"
proof -
  have 1: "strip ''CONF:abc\<newline>'' = ''CONF:abc''" "strip ''CLASSES:0,x\<newline>'' = ''CLASSES:0,x''"
     "strip ''PAUSE\<newline>'' = ''PAUSE''"
    by (simp_all add: strip_def py_isspace_def)
  have a: "listen_stdin stub [Line ''CONF:abc\<newline>'', Line ''CLASSES:0,x\<newline>'', Line ''PAUSE\<newline>''] detector0
     = listen_stdin stub [Line ''CLASSES:0,x\<newline>'', Line ''PAUSE\<newline>''] detector0"
    using malformed_command_ignored [of "''CONF:abc\<newline>''" stub "[Line ''CLASSES:0,x\<newline>'', Line ''PAUSE\<newline>'']" detector0]
    by (simp add: 1 startswith_def stub_def)
  have b: "listen_stdin stub [Line ''CLASSES:0,x\<newline>'', Line ''PAUSE\<newline>''] detector0
     = listen_stdin stub [Line ''PAUSE\<newline>''] detector0"
    using malformed_command_ignored [of "''CLASSES:0,x\<newline>''" stub "[Line ''PAUSE\<newline>'']" detector0]
    by (simp add: 1 startswith_def stub_def)
  have c: "listen_stdin stub [Line ''PAUSE\<newline>''] detector0 = detector0"
    using malformed_command_ignored [of "''PAUSE\<newline>''" stub "[]" detector0]
    by (simp add: 1 startswith_def)
  from a b c show ?thesis by simp
qed

section \<open>Properties of the rate estimator\<close>

lemma inst_rate_value: "inst_rate e = Inr (if 0 < e then 1 / e else 0)"
  by (simp add: inst_rate_def py_div_def)

lemma update_rate_value:
  "update_rate ema e =
     Inr (if 0 < ema then 9 / 10 * ema + 1 / 10 * (if 0 < e then 1 / e else 0)
          else (if 0 < e then 1 / e else 0))"
  by (simp add: update_rate_def inst_rate_value)

lemma rate_after_snoc:
  "rate_after (es @ [e]) =
     (case rate_after es of Inl x \<Rightarrow> Inl x | Inr ema \<Rightarrow> update_rate ema e)"
  by (simp add: rate_after_def)

lemma rate_after_value:
  "\<exists>E. rate_after es = Inr E \<and> 0 \<le> E \<and> (0 < E \<longleftrightarrow> (\<exists>x \<in> set es. 0 < x))"
proof (induction es rule: rev_induct)
  case Nil
  show ?case by (simp add: rate_after_def)
next
  case (snoc e es)
  then obtain E where E: "rate_after es = Inr E" "0 \<le> E" "0 < E \<longleftrightarrow> (\<exists>x \<in> set es. 0 < x)"
    by blast
  show ?case
  proof (cases "0 < E")
    case True
    then have "0 < 9 / 10 * E + 1 / 10 * (if 0 < e then 1 / e else 0)"
      by (simp add: add_pos_nonneg)
    with True E show ?thesis
      by (auto simp: rate_after_snoc update_rate_value)
  next
    case False
    with E show ?thesis
      by (auto simp: rate_after_snoc update_rate_value)
  qed
qed

text \<open>
  Claim C3, as the code has it. The instantaneous rate is \<open>1 / elapsed\<close> for a positive
  sample and 0 otherwise, and no division by zero is reached. The first sample seeds
  the estimate. After any samples the estimate \<open>E\<close> is not negative, and it is positive
  exactly when some sample was positive; the next sample blends as
  \<open>0.9 * E + 0.1 * rate\<close> when \<open>E\<close> is positive, and seeds the estimate again when \<open>E\<close>
  is still the constructor's 0, since the code tests \<open>self.fps_ema > 0\<close> to tell an
  unset estimate.
\<close>

theorem rate_estimator_update:
  "inst_rate e = Inr (if 0 < e then 1 / e else 0) \<and>
   rate_after [e] = inst_rate e \<and>
   (\<exists>E r. rate_after es = Inr E \<and> 0 \<le> E \<and> (0 < E \<longleftrightarrow> (\<exists>x \<in> set es. 0 < x)) \<and>
      inst_rate e = Inr r \<and>
      rate_after (es @ [e]) = Inr (if 0 < E then 9 / 10 * E + 1 / 10 * r else r))"
proof (intro conjI)
  show "inst_rate e = Inr (if 0 < e then 1 / e else 0)"
    by (rule inst_rate_value)
  show "rate_after [e] = inst_rate e"
    by (simp add: rate_after_def update_rate_value inst_rate_value)
  obtain E where E: "rate_after es = Inr E" "0 \<le> E" "0 < E \<longleftrightarrow> (\<exists>x \<in> set es. 0 < x)"
    using rate_after_value by blast
  then show "\<exists>E r. rate_after es = Inr E \<and> 0 \<le> E \<and> (0 < E \<longleftrightarrow> (\<exists>x \<in> set es. 0 < x)) \<and>
      inst_rate e = Inr r \<and>
      rate_after (es @ [e]) = Inr (if 0 < E then 9 / 10 * E + 1 / 10 * r else r)"
    by (auto simp: rate_after_snoc update_rate_value inst_rate_value)
qed

theorem rate_estimator_update_witness:
  "rate_after [1 / 4] = Inr 4 \<and> rate_after [1 / 4, 1 / 2] = Inr (19 / 5)"
proof -
  have a: "rate_after [1 / 4] = Inr 4"
    by (simp add: rate_after_def update_rate_value)
  from rate_estimator_update [of "1 / 2" "[1 / 4]"] a
  have "rate_after ([1 / 4] @ [1 / 2]) = Inr (19 / 5)"
    by auto
  with a show ?thesis by simp
qed

text \<open>
  Claim C3 as the specification words it (every sample after the first is blended)
  fails when the first sample is not positive: after the samples 0 and 1 the estimate
  is 1, the rate of the second sample, and not the blend \<open>0.9 * 0 + 0.1 * 1\<close>.
\<close>

theorem rate_estimator_blend_counterexample:
  "rate_after [0] = Inr 0 \<and> inst_rate 1 = Inr 1 \<and> rate_after [0, 1] = Inr 1 \<and>
   (1 :: real) \<noteq> 9 / 10 * 0 + 1 / 10 * 1"
  by (simp add: rate_after_def update_rate_value inst_rate_value)

section \<open>Properties of the number conversions\<close>

text \<open>\<open>py_round\<close> moves a number by half a unit of the last digit at most.\<close>

lemma round_half_even_close: "\<bar>real_of_int (round_half_even x) - x\<bar> \<le> 1 / 2"
  unfolding round_half_even_def Let_def by (simp; linarith)

lemma py_round_close: "\<bar>py_round x n - x\<bar> \<le> 1 / (2 * 10 ^ n)"
proof -
  have "\<bar>py_round x n - x\<bar> = \<bar>real_of_int (round_half_even (x * 10 ^ n)) - x * 10 ^ n\<bar> / 10 ^ n"
    by (simp add: py_round_def field_simps abs_divide)
  also have "\<dots> \<le> (1 / 2) / 10 ^ n"
    by (rule divide_right_mono [OF round_half_even_close]) simp
  finally show ?thesis by simp
qed

lemma is_decimal_py_round: "is_decimal n (py_round x n)"
  by (simp add: is_decimal_def py_round_def)

lemma py_trunc_nonneg: "0 \<le> x \<Longrightarrow> py_trunc x = \<lfloor>x\<rfloor>"
  by (simp add: py_trunc_def)

lemma py_trunc_close: "\<bar>real_of_int (py_trunc x) - x\<bar> < 1"
  unfolding py_trunc_def by (simp; linarith)

section \<open>Properties of the frame pipeline\<close>

text \<open>
  Claim C9, as the code has it. For a box with \<open>x1 \<le> x2\<close> and \<open>y1 \<le> y2\<close> whose class
  has a name, the record holds the four corners truncated to integers, each less than
  one pixel from the engine's coordinate, and the area is the integer part of width
  times height of the engine's box, taken before the corners are truncated; it is
  not negative.
\<close>

theorem detection_bbox_area:
  assumes "mk_detection nm b = Inr d" and "bx1 b \<le> bx2 b" and "by1 b \<le> by2 b"
  shows "d_bbox d = [py_trunc (bx1 b), py_trunc (by1 b), py_trunc (bx2 b), py_trunc (by2 b)] \<and>
         list_all2 (\<lambda>i x. \<bar>real_of_int i - x\<bar> < 1) (d_bbox d) [bx1 b, by1 b, bx2 b, by2 b] \<and>
         d_area d = \<lfloor>(bx2 b - bx1 b) * (by2 b - by1 b)\<rfloor> \<and>
         0 \<le> d_area d"
proof -
  have nn: "0 \<le> (bx2 b - bx1 b) * (by2 b - by1 b)"
    using assms(2,3) by simp
  from assms(1) obtain nmv where d:
    "d = \<lparr>d_class = nmv, d_conf = py_round (bconf b) 3,
          d_bbox = [py_trunc (bx1 b), py_trunc (by1 b), py_trunc (bx2 b), py_trunc (by2 b)],
          d_area = py_trunc ((bx2 b - bx1 b) * (by2 b - by1 b))\<rparr>"
    by (auto simp: mk_detection_def split: option.splits)
  show ?thesis
    using nn by (simp add: d py_trunc_close py_trunc_nonneg)
qed

lemma mk_detection_stub_box:
  "mk_detection [0 \<mapsto> ''person'']
     \<lparr>cls = 0, bconf = 87 / 100, bx1 = 241 / 2, by1 = 181 / 4, bx2 = 1363 / 4, by2 = 360\<rparr>
   = Inr \<lparr>d_class = ''person'', d_conf = 87 / 100, d_bbox = [120, 45, 340, 360], d_area = 69323\<rparr>"
  by (simp add: mk_detection_def py_trunc_def py_round_def round_half_even_def Let_def)

theorem detection_bbox_area_witness:
  "mk_detection [0 \<mapsto> ''person'']
     \<lparr>cls = 0, bconf = 87 / 100, bx1 = 241 / 2, by1 = 181 / 4, bx2 = 1363 / 4, by2 = 360\<rparr>
   = Inr \<lparr>d_class = ''person'', d_conf = 87 / 100, d_bbox = [120, 45, 340, 360], d_area = 69323\<rparr> \<and>
   (69323 :: int) = \<lfloor>(1363 / 4 - 241 / 2) * (360 - 181 / 4 :: real)\<rfloor> \<and>
   list_all2 (\<lambda>i x. \<bar>real_of_int i - x\<bar> < 1) [120, 45, 340, 360] [241 / 2, 181 / 4, 1363 / 4, 360]"
  using detection_bbox_area [OF mk_detection_stub_box] mk_detection_stub_box
  by simp

text \<open>
  Claim C9 as the specification words it (the area is width times height of the box
  the record carries) fails for the box with corners \<open>(0.75, 0)\<close> and \<open>(1.25, 10)\<close>: the
  record has the integer corners \<open>(0, 0)\<close> and \<open>(1, 10)\<close>, a box of width 1 and height
  10, and the area 5.
\<close>

theorem detection_area_counterexample:
  "mk_detection [0 \<mapsto> ''person'']
     \<lparr>cls = 0, bconf = 1 / 2, bx1 = 3 / 4, by1 = 0, bx2 = 5 / 4, by2 = 10\<rparr>
   = Inr \<lparr>d_class = ''person'', d_conf = 1 / 2, d_bbox = [0, 0, 1, 10], d_area = 5\<rparr> \<and>
   (5 :: int) \<noteq> (1 - 0) * (10 - 0)"
  by (simp add: mk_detection_def py_trunc_def py_round_def round_half_even_def Let_def)

lemma mk_detections_conf:
  "mk_detections nm bs = Inr ds \<Longrightarrow>
     list_all2 (\<lambda>d b. is_decimal 3 (d_conf d) \<and> \<bar>d_conf d - bconf b\<bar> \<le> 1 / 2000) ds bs"
proof (induction bs arbitrary: ds)
  case Nil
  then show ?case by simp
next
  case (Cons b bs)
  from Cons.prems obtain d ds' where
    d: "mk_detection nm b = Inr d" and ds': "mk_detections nm bs = Inr ds'" and
    e: "ds = d # ds'"
    by (auto split: sum.splits)
  from d have "d_conf d = py_round (bconf b) 3"
    by (auto simp: mk_detection_def split: option.splits)
  then have "is_decimal 3 (d_conf d) \<and> \<bar>d_conf d - bconf b\<bar> \<le> 1 / 2000"
    using py_round_close [of "bconf b" 3] by (simp add: is_decimal_py_round)
  with Cons.IH [OF ds'] e show ?case by simp
qed

text \<open>
  Claim C2, as the code has it. In every event that \<open>process_frame\<close> returns, and the
  loop emits no other frame event, the confidence of each detection is the confidence
  of the engine's box at the same position rounded to 3 digits after the point, the
  motion score is the score of \<open>compute_motion\<close> rounded to 4 digits, the frame rate
  is the new estimate rounded to 1 digit and the inference time is the elapsed time
  in milliseconds rounded to 1 digit: each field has at most that many digits and
  lies within half a unit of the last digit of the value it rounds.
\<close>

theorem event_fields_rounded:
  assumes "process_frame X fr clk s = (Inr ev, s')"
  shows "\<exists>res m.
           predict X (conf s) (imgsz s) (target_classes s) fr = Inr res \<and>
           fst (compute_motion X fr s) = Inr m \<and>
           list_all2 (\<lambda>d b. is_decimal 3 (d_conf d) \<and> \<bar>d_conf d - bconf b\<bar> \<le> 1 / 2000)
             (detections ev) (boxes res) \<and>
           is_decimal 4 (motion ev) \<and> \<bar>motion ev - m\<bar> \<le> 1 / 20000 \<and>
           is_decimal 1 (fps ev) \<and> \<bar>fps ev - fps_ema s'\<bar> \<le> 1 / 20 \<and>
           is_decimal 1 (inference_ms ev) \<and>
           \<bar>inference_ms ev - (t1 clk - t0 clk) * 1000\<bar> \<le> 1 / 20"
proof -
  from assms obtain res where res: "predict X (conf s) (imgsz s) (target_classes s) fr = Inr res"
    by (auto simp: process_frame_def split: sum.splits)
  from assms res obtain m s1 where cm: "compute_motion X fr s = (Inr m, s1)"
    by (auto simp: process_frame_def split: sum.splits prod.splits)
  from assms res cm obtain ds where ds: "mk_detections (names res) (boxes res) = Inr ds"
    by (auto simp: process_frame_def split: sum.splits)
  from assms res cm ds obtain ema where
    ema: "update_rate (fps_ema s1) (t1 clk - t0 clk) = Inr ema"
    by (auto simp: process_frame_def Let_def split: sum.splits)
  from assms res cm ds ema have ev:
    "detections ev = ds" "motion ev = py_round m 4" "fps ev = py_round ema 1"
    "inference_ms ev = py_round ((t1 clk - t0 clk) * 1000) 1" "fps_ema s' = ema"
    by (auto simp: process_frame_def Let_def)
  have "list_all2 (\<lambda>d b. is_decimal 3 (d_conf d) \<and> \<bar>d_conf d - bconf b\<bar> \<le> 1 / 2000)
          (detections ev) (boxes res)"
    using mk_detections_conf [OF ds] ev by simp
  moreover have "\<bar>motion ev - m\<bar> \<le> 1 / 20000"
    using py_round_close [of m 4] ev by simp
  moreover have "\<bar>fps ev - fps_ema s'\<bar> \<le> 1 / 20"
    using py_round_close [of ema 1] ev by simp
  moreover have "\<bar>inference_ms ev - (t1 clk - t0 clk) * 1000\<bar> \<le> 1 / 20"
    using py_round_close [of "(t1 clk - t0 clk) * 1000" 1] ev by simp
  ultimately show ?thesis
    using res cm ev by (simp add: is_decimal_py_round)
qed

section \<open>Properties of the motion scorer\<close>

lemma zip_rows_shape:
  "map length a = map length b \<Longrightarrow>
     map length (map (\<lambda>(r, r'). map (\<lambda>(p, q). absdiff8 p q) (zip r r')) (zip a b)) = map length b"
proof (induction a arbitrary: b)
  case Nil
  then show ?case by simp
next
  case (Cons r a)
  then show ?case by (cases b) auto
qed

lemma absdiff_shape:
  assumes "absdiff a b = Inr d"
  shows "map length d = map length b"
proof -
  from assms have sh: "map length a = map length b"
    by (simp add: absdiff_def split: if_splits)
  with assms have "d = map (\<lambda>(r, r'). map (\<lambda>(p, q). absdiff8 p q) (zip r r')) (zip a b)"
    by (simp add: absdiff_def)
  with zip_rows_shape [OF sh] show ?thesis by (simp only:)
qed

lemma same_shape_concat:
  "map length a = map length b \<Longrightarrow> length (concat a) = length (concat b)"
  by (simp add: length_concat)

lemma absdiff_same_shape: "map length a = map length b \<Longrightarrow> \<exists>d. absdiff a b = Inr d"
  by (simp add: absdiff_def)

lemma sum_unat_le: "sum_list (map unat (xs :: 8 word list)) \<le> 255 * length xs"
proof (induction xs)
  case Nil
  show ?case by simp
next
  case (Cons x xs)
  have "unat x < 2 ^ LENGTH(8)" by (rule unsigned_less)
  then have "unat x \<le> 255" by simp
  with Cons show ?case by simp
qed

lemma np_mean_bounds: "0 \<le> np_mean g \<and> np_mean g \<le> 255"
proof (cases "concat g = []")
  case True
  show ?thesis unfolding np_mean_def True by simp
next
  case False
  then have pos: "0 < real (length (concat g))" by simp
  have "real (sum_list (map unat (concat g))) \<le> 255 * real (length (concat g))"
    using sum_unat_le [of "concat g"] by (metis of_nat_le_iff of_nat_mult of_nat_numeral)
  with pos show ?thesis by (simp add: np_mean_def pos_divide_le_eq)
qed

lemma nat_absdiff: "nat \<bar>int a - int b\<bar> = (if a \<le> b then b - a else a - b)"
  by auto

lemma unat_absdiff8: "unat (absdiff8 p q) = nat \<bar>int (unat p) - int (unat q)\<bar>"
proof -
  have "unat (absdiff8 p q) = (if unat p \<le> unat q then unat q - unat p else unat p - unat q)"
  proof (cases "p \<le> q")
    case True
    then have "unat (q - p) = unat q - unat p" by (rule unat_sub)
    with True show ?thesis by (simp add: absdiff8_def word_le_nat_alt)
  next
    case False
    then have "q \<le> p" by simp
    then have "unat (p - q) = unat p - unat q" by (rule unat_sub)
    with False show ?thesis by (simp add: absdiff8_def word_le_nat_alt)
  qed
  then show ?thesis by (simp only: nat_absdiff)
qed

lemma concat_zip_rows:
  "map length a = map length b \<Longrightarrow>
     concat (map (\<lambda>(r, r'). map f (zip r r')) (zip a b)) = map f (zip (concat a) (concat b))"
proof (induction a arbitrary: b)
  case Nil
  then show ?case by simp
next
  case (Cons r a)
  then show ?case by (cases b) auto
qed

lemma np_mean_absdiff:
  assumes "absdiff a b = Inr d"
  shows "np_mean d =
           real (sum_list (map (\<lambda>(p, q). nat \<bar>int (unat p) - int (unat q)\<bar>)
                   (zip (concat a) (concat b)))) / real (length (concat b))"
proof -
  from assms have sh: "map length a = map length b"
    by (simp add: absdiff_def split: if_splits)
  with assms have "d = map (\<lambda>(r, r'). map (\<lambda>(p, q). absdiff8 p q) (zip r r')) (zip a b)"
    by (simp add: absdiff_def)
  then have c: "concat d = map (\<lambda>(p, q). absdiff8 p q) (zip (concat a) (concat b))"
    using concat_zip_rows [OF sh] by simp
  have "map unat (concat d) =
          map (\<lambda>(p, q). nat \<bar>int (unat p) - int (unat q)\<bar>) (zip (concat a) (concat b))"
    unfolding c by (simp add: unat_absdiff8 split_def)
  moreover have "length (concat d) = length (concat b)"
    using same_shape_concat [OF absdiff_shape [OF assms]] .
  ultimately show ?thesis by (simp add: np_mean_def)
qed

text \<open>
  Claim C5, as the code has it, for every invocation. When the conversion to
  grayscale raises, the exception leaves \<open>compute_motion\<close> and the detector is as
  before. With nothing stored, the score is exactly 0 and the image \<open>g\<close> of the frame
  is stored. With an image of the same shape stored, the score is the sum over all
  pixels of the absolute difference between the stored image and \<open>g\<close>, divided by
  the number of pixels and by 255, and \<open>g\<close> is stored. With an image of another shape
  stored, \<open>cv2.absdiff\<close> raises and the stored image stays. Every score returned lies
  between 0 and 1, and after it the image of the current frame is the one stored.
\<close>

theorem compute_motion_scorer:
  "(\<forall>e. to_gray X fr = Inl e \<longrightarrow> compute_motion X fr s = (Inl e, s)) \<and>
   (\<forall>g. to_gray X fr = Inr g \<and> prev_gray s = None \<longrightarrow>
      compute_motion X fr s = (Inr 0, s\<lparr>prev_gray := Some g\<rparr>)) \<and>
   (\<forall>g prev. to_gray X fr = Inr g \<and> prev_gray s = Some prev \<and>
        map length prev = map length g \<longrightarrow>
      concat g \<noteq> [] \<and>
      compute_motion X fr s =
        (Inr (real (sum_list (map (\<lambda>(p, q). nat \<bar>int (unat p) - int (unat q)\<bar>)
                      (zip (concat prev) (concat g))))
              / real (length (concat g)) / 255),
         s\<lparr>prev_gray := Some g\<rparr>)) \<and>
   (\<forall>g prev. to_gray X fr = Inr g \<and> prev_gray s = Some prev \<and>
        map length prev \<noteq> map length g \<longrightarrow>
      compute_motion X fr s = (Inl CvError, s)) \<and>
   (\<forall>m s'. compute_motion X fr s = (Inr m, s') \<longrightarrow>
      0 \<le> m \<and> m \<le> 1 \<and> (\<exists>g. to_gray X fr = Inr g \<and> s' = s\<lparr>prev_gray := Some g\<rparr>))"
proof (intro conjI allI impI)
  fix e
  assume "to_gray X fr = Inl e"
  then show "compute_motion X fr s = (Inl e, s)"
    by (simp add: compute_motion_def)
next
  fix g
  assume "to_gray X fr = Inr g \<and> prev_gray s = None"
  then show "compute_motion X fr s = (Inr 0, s\<lparr>prev_gray := Some g\<rparr>)"
    by (simp add: compute_motion_def)
next
  fix g prev
  assume a: "to_gray X fr = Inr g \<and> prev_gray s = Some prev \<and> map length prev = map length g"
  then show "concat g \<noteq> []"
    by (auto simp: to_gray_def split: sum.splits if_splits)
  from a obtain d where d: "absdiff prev g = Inr d"
    using absdiff_same_shape by blast
  with a have "compute_motion X fr s = (Inr (np_mean d / 255), s\<lparr>prev_gray := Some g\<rparr>)"
    by (simp add: compute_motion_def)
  then show "compute_motion X fr s =
        (Inr (real (sum_list (map (\<lambda>(p, q). nat \<bar>int (unat p) - int (unat q)\<bar>)
                      (zip (concat prev) (concat g))))
              / real (length (concat g)) / 255),
         s\<lparr>prev_gray := Some g\<rparr>)"
    by (simp only: np_mean_absdiff [OF d])
next
  fix g prev
  assume "to_gray X fr = Inr g \<and> prev_gray s = Some prev \<and> map length prev \<noteq> map length g"
  then show "compute_motion X fr s = (Inl CvError, s)"
    by (simp add: compute_motion_def absdiff_def)
next
  fix m s'
  assume r: "compute_motion X fr s = (Inr m, s')"
  then obtain g where g: "to_gray X fr = Inr g"
    by (auto simp: compute_motion_def split: sum.splits)
  have "0 \<le> m \<and> m \<le> 1"
  proof (cases "prev_gray s")
    case None
    with r g show ?thesis by (simp add: compute_motion_def)
  next
    case (Some prev)
    with r g obtain d where "np_mean d = m * 255"
      by (auto simp: compute_motion_def split: sum.splits)
    with np_mean_bounds [of d] show ?thesis by simp
  qed
  then show "0 \<le> m" "m \<le> 1" by simp_all
  from r g have "s' = s\<lparr>prev_gray := Some g\<rparr>"
    by (auto simp: compute_motion_def split: option.splits sum.splits)
  with g show "\<exists>g. to_gray X fr = Inr g \<and> s' = s\<lparr>prev_gray := Some g\<rparr>"
    by blast
qed

lemma absdiff_frames:
  "absdiff frame1 frame2 = Inr [[4, 10], [0, 0]]" "absdiff frame2 frame_wide = Inl CvError"
  by (simp_all add: absdiff_def absdiff8_def frame1_def frame2_def frame_wide_def)

lemma np_mean_frames: "np_mean [[4, 10], [0, 0]] = 7 / 2"
  by (simp add: np_mean_def)

lemma frame2_not_wide: "frame2 \<noteq> frame_wide"
  by (simp add: frame2_def frame_wide_def)

lemma to_gray_stub:
  "to_gray stub frame1 = Inr frame1" "to_gray stub frame2 = Inr frame2"
  "to_gray stub frame_wide = Inr frame_wide"
  by (simp_all add: to_gray_def stub_def frame1_def frame2_def frame_wide_def)

lemma mad_frames:
  "real (sum_list (map (\<lambda>(p, q). nat \<bar>int (unat p) - int (unat q)\<bar>)
       (zip (concat frame1) (concat frame2)))) / real (length (concat frame2)) / 255 = 7 / 510"
  by (simp add: frame1_def frame2_def)

lemma shape_frames: "map length frame1 = map length frame2" "map length frame2 \<noteq> map length frame_wide"
  by (simp_all add: frame1_def frame2_def frame_wide_def)

theorem compute_motion_scorer_witness:
  "compute_motion stub frame1 detector0 = (Inr 0, detector0\<lparr>prev_gray := Some frame1\<rparr>) \<and>
   compute_motion stub frame2 (detector0\<lparr>prev_gray := Some frame1\<rparr>)
     = (Inr (7 / 510), detector0\<lparr>prev_gray := Some frame2\<rparr>) \<and>
   compute_motion stub frame_wide (detector0\<lparr>prev_gray := Some frame2\<rparr>)
     = (Inl CvError, detector0\<lparr>prev_gray := Some frame2\<rparr>)"
proof -
  let ?s1 = "detector0\<lparr>prev_gray := Some frame1\<rparr>"
  let ?s2 = "detector0\<lparr>prev_gray := Some frame2\<rparr>"
  have p: "prev_gray detector0 = None" "prev_gray ?s1 = Some frame1" "prev_gray ?s2 = Some frame2"
    by (simp_all add: detector0_def init_def)
  have u: "?s1\<lparr>prev_gray := Some frame2\<rparr> = ?s2"
    by simp
  have a: "compute_motion stub frame1 detector0 = (Inr 0, ?s1)"
    using compute_motion_scorer [of stub frame1 detector0] to_gray_stub(1) p(1) by blast
  have "compute_motion stub frame2 ?s1 =
        (Inr (real (sum_list (map (\<lambda>(p, q). nat \<bar>int (unat p) - int (unat q)\<bar>)
                      (zip (concat frame1) (concat frame2))))
              / real (length (concat frame2)) / 255),
         ?s1\<lparr>prev_gray := Some frame2\<rparr>)"
    using compute_motion_scorer [of stub frame2 ?s1] to_gray_stub(2) p(2) shape_frames(1)
    by blast
  then have b: "compute_motion stub frame2 ?s1 = (Inr (7 / 510), ?s2)"
    by (simp only: mad_frames u)
  have c: "compute_motion stub frame_wide ?s2 = (Inl CvError, ?s2)"
    using compute_motion_scorer [of stub frame_wide ?s2] to_gray_stub(3) p(3) shape_frames(2)
    by blast
  from a b c show ?thesis by (simp only: simp_thms)
qed

text \<open>
  Claim C5 as the specification words it (every invocation replaces the stored
  image with the current frame's) fails when the frame has another shape than the
  stored image: the call raises and the stored image is still the old one.
\<close>

theorem compute_motion_replace_counterexample:
  "to_gray stub frame_wide = Inr frame_wide \<and>
   prev_gray (snd (compute_motion stub frame_wide (detector0\<lparr>prev_gray := Some frame2\<rparr>)))
     = Some frame2 \<and>
   Some frame2 \<noteq> Some frame_wide"
  by (simp add: to_gray_stub compute_motion_def absdiff_frames frame2_not_wide)

text \<open>The second frame of a stream, processed after the first.\<close>

lemma process_frame_stub:
  "process_frame stub frame2 clock0 (detector0\<lparr>prev_gray := Some frame1\<rparr>) =
     (Inr \<lparr>ts = 1707840000125, fps = 4,
           detections = [\<lparr>d_class = ''person'', d_conf = 87 / 100,
                          d_bbox = [120, 45, 340, 360], d_area = 69323\<rparr>],
           motion = 137 / 10000, frame = 1, inference_ms = 250\<rparr>,
      detector0\<lparr>prev_gray := Some frame2, fps_ema := 4, frame_count := 1\<rparr>)"
  by (simp add: process_frame_def stub_def detector0_def init_def clock0_def frame1_def frame2_def
      compute_motion_def to_gray_def absdiff_def absdiff8_def np_mean_def
      mk_detection_def py_trunc_def py_round_def round_half_even_def
      update_rate_def inst_rate_def py_div_def Let_def)

theorem event_fields_rounded_witness:
  "process_frame stub frame2 clock0 (detector0\<lparr>prev_gray := Some frame1\<rparr>) =
     (Inr \<lparr>ts = 1707840000125, fps = 4,
           detections = [\<lparr>d_class = ''person'', d_conf = 87 / 100,
                          d_bbox = [120, 45, 340, 360], d_area = 69323\<rparr>],
           motion = 137 / 10000, frame = 1, inference_ms = 250\<rparr>,
      detector0\<lparr>prev_gray := Some frame2, fps_ema := 4, frame_count := 1\<rparr>) \<and>
   fst (compute_motion stub frame2 (detector0\<lparr>prev_gray := Some frame1\<rparr>)) = Inr (7 / 510) \<and>
   is_decimal 3 (87 / 100) \<and> \<bar>87 / 100 - 87 / 100 :: real\<bar> \<le> 1 / 2000 \<and>
   is_decimal 4 (137 / 10000) \<and> \<bar>137 / 10000 - 7 / 510 :: real\<bar> \<le> 1 / 20000 \<and>
   is_decimal 1 4 \<and> is_decimal 1 250"
proof -
  let ?s1 = "detector0\<lparr>prev_gray := Some frame1\<rparr>"
  have m: "fst (compute_motion stub frame2 ?s1) = Inr (7 / 510)"
    by (simp add: compute_motion_def to_gray_stub absdiff_frames np_mean_frames)
  have r: "predict stub (conf ?s1) (imgsz ?s1) (target_classes ?s1) frame2 =
      Inr \<lparr>names = [0 \<mapsto> ''person''],
           boxes = [\<lparr>cls = 0, bconf = 87 / 100,
                     bx1 = 241 / 2, by1 = 181 / 4, bx2 = 1363 / 4, by2 = 360\<rparr>]\<rparr>"
    by (simp add: stub_def)
  from event_fields_rounded [OF process_frame_stub] obtain res m' where
    e: "predict stub (conf ?s1) (imgsz ?s1) (target_classes ?s1) frame2 = Inr res"
       "fst (compute_motion stub frame2 ?s1) = Inr m'"
       "list_all2 (\<lambda>d b. is_decimal 3 (d_conf d) \<and> \<bar>d_conf d - bconf b\<bar> \<le> 1 / 2000)
          [\<lparr>d_class = ''person'', d_conf = 87 / 100,
             d_bbox = [120, 45, 340, 360], d_area = 69323\<rparr>] (boxes res)"
       "is_decimal 4 (137 / 10000)" "\<bar>137 / 10000 - m'\<bar> \<le> 1 / 20000"
       "is_decimal 1 4" "is_decimal 1 250"
    by auto
  from e(1) r have res: "boxes res = [\<lparr>cls = 0, bconf = 87 / 100,
                     bx1 = 241 / 2, by1 = 181 / 4, bx2 = 1363 / 4, by2 = 360\<rparr>]"
    by simp
  from e(2) m have m': "m' = 7 / 510" by simp
  from e(3) have "is_decimal 3 (87 / 100)"
    unfolding res by simp
  with e(4-7) m m' process_frame_stub show ?thesis
    by simp
qed

text \<open>
  Claim C2 as the specification words it (the motion score has 3 decimal places)
  fails on that frame: the score \<open>7 / 510\<close> is emitted as 0.0137, since the code calls
  \<open>round(motion, 4)\<close>.
\<close>

theorem motion_three_decimals_counterexample:
  "map_sum id motion (fst (process_frame stub frame2 clock0 (detector0\<lparr>prev_gray := Some frame1\<rparr>)))
     = Inr (137 / 10000) \<and> \<not> is_decimal 3 (137 / 10000)"
  by (simp add: process_frame_stub is_decimal_def)

section \<open>Properties of the supervisor loop\<close>

lemma compute_motion_keeps:
  "running (snd (compute_motion X fr s)) = running s \<and>
   frame_count (snd (compute_motion X fr s)) = frame_count s \<and>
   rtsp_url (snd (compute_motion X fr s)) = rtsp_url s"
  by (simp add: compute_motion_def split: sum.splits option.splits)

lemma process_frame_running: "running (snd (process_frame X fr clk s)) = running s"
  using compute_motion_keeps [of X fr s]
  by (auto simp: process_frame_def Let_def split: sum.splits prod.splits)

lemma process_frame_count_ok:
  "process_frame X fr clk s = (Inr ev, s') \<Longrightarrow>
     frame_count s' = frame_count s + 1 \<and> frame ev = frame_count s + 1"
  using compute_motion_keeps [of X fr s]
  by (auto simp: process_frame_def Let_def split: sum.splits prod.splits)

lemma process_frame_count_err:
  "process_frame X fr clk s = (Inl e, s') \<Longrightarrow> frame_count s' = frame_count s"
  using compute_motion_keeps [of X fr s]
  by (auto simp: process_frame_def Let_def split: sum.splits prod.splits)

lemma listen_step_frame_count: "frame_count (fst (listen_step X r s)) = frame_count s"
  by (cases r) (simp_all add: handle_line_def Let_def split: option.splits)

lemma listen_step_running: "\<not> running s \<Longrightarrow> \<not> running (fst (listen_step X r s))"
  by (cases r) (simp_all add: handle_line_def Let_def split: option.splits)

lemma frame_numbers_append: "frame_numbers (xs @ ys) = frame_numbers xs @ frame_numbers ys"
  by (induction xs rule: frame_numbers.induct) simp_all


lemma frame_stages_keep:
  "s' \<in> set (frame_stages X fr clk s) \<Longrightarrow>
     running s' = running s \<and>
     (frame_count s' = frame_count s \<or> frame_count s' = frame_count s + 1)"
proof -
  assume a: "s' \<in> set (frame_stages X fr clk s)"
  obtain r s1 where cm: "compute_motion X fr s = (r, s1)"
    by (cases "compute_motion X fr s")
  with compute_motion_keeps [of X fr s]
  have k: "running s1 = running s" "frame_count s1 = frame_count s"
    by simp_all
  from a cm k show ?thesis
    by (auto simp: frame_stages_def split: sum.splits)
qed

lemma interrupted_frame_stage:
  "interrupted_frame X fr clk s k \<in> set (frame_stages X fr clk s)"
proof -
  have "frame_stages X fr clk s \<noteq> []"
    by (simp add: frame_stages_def)
  then have "min k (length (frame_stages X fr clk s) - 1) < length (frame_stages X fr clk s)"
    by (cases "frame_stages X fr clk s") auto
  then show ?thesis
    by (simp add: interrupted_frame_def Let_def)
qed

lemma interrupted_frame_keeps:
  "running (interrupted_frame X fr clk s k) = running s \<and>
   (frame_count (interrupted_frame X fr clk s k) = frame_count s \<or>
    frame_count (interrupted_frame X fr clk s k) = frame_count s + 1)"
  by (rule frame_stages_keep) (rule interrupted_frame_stage)

text \<open>The last stage is the state in which \<open>process_frame\<close> leaves the detector.\<close>

lemma compute_motion_error: "compute_motion X fr s = (Inl e, s1) \<Longrightarrow> s1 = s"
  by (auto simp: compute_motion_def split: sum.splits option.splits)

lemma process_frame_last_stage:
  "snd (process_frame X fr clk s) = last (frame_stages X fr clk s)"
proof -
  obtain r s1 where cm: "compute_motion X fr s = (r, s1)"
    by (cases "compute_motion X fr s")
  show ?thesis
  proof (cases r)
    case (Inl e)
    with cm compute_motion_error [of X fr s e s1] show ?thesis
      by (auto simp: process_frame_def frame_stages_def split: sum.splits)
  next
    case (Inr m)
    with cm show ?thesis
      by (auto simp: process_frame_def frame_stages_def Let_def split: sum.splits)
  qed
qed

lemma step_running: "\<not> running (self p) \<Longrightarrow> \<not> running (self (step X a p))"
proof (cases a)
  case (Stdin r)
  assume "\<not> running (self p)"
  then show ?thesis
    using listen_step_running [of "self p" X r] Stdin
    by (cases "listen_step X r (self p)") auto
next
  case (Iter r)
  assume "\<not> running (self p)"
  then show ?thesis using Iter by (simp add: loop_iter_def)
next
  case Interrupt
  assume "\<not> running (self p)"
  then show ?thesis using Interrupt by simp
next
  case (InterruptIn r k)
  assume "\<not> running (self p)"
  then show ?thesis using InterruptIn by simp
qed

lemma strip_STOP: "strip ''STOP\<newline>'' = ''STOP''"
  by (simp add: strip_def py_isspace_def)

text \<open>
  Claim C8. The constructor sets \<open>running\<close>; once the flag is clear it stays clear
  through every sequence of actions of the listener and of the loop, and
  \<open>process_frame\<close> leaves the flag as it finds it. So the flag goes from set to clear
  at most once and never back.
\<close>

theorem running_never_set_again:
  "running (init url c classes sz) \<and>
   (\<not> running (self p) \<longrightarrow> \<not> running (self (exec X acts p))) \<and>
   running (snd (process_frame X fr clk s)) = running s"
proof (intro conjI)
  show "running (init url c classes sz)" by (simp add: init_def)
  show "\<not> running (self p) \<longrightarrow> \<not> running (self (exec X acts p))"
    by (induction acts arbitrary: p) (simp_all add: step_running)
  show "running (snd (process_frame X fr clk s)) = running s"
    by (rule process_frame_running)
qed

theorem running_never_set_again_witness:
  "running (self (run_start True detector0)) \<and>
   \<not> running (self (exec stub [Stdin (Line ''STOP\<newline>'')] (run_start True detector0))) \<and>
   \<not> running (self (exec stub [Stdin (Line ''STOP\<newline>''), Stdin (Line ''CONF:0.5\<newline>''),
        Iter (Some (frame1, clock0)), Interrupt] (run_start True detector0)))"
proof -
  let ?p = "exec stub [Stdin (Line ''STOP\<newline>'')] (run_start True detector0)"
  have a: "\<not> running (self ?p)"
    by (simp add: run_start_def detector0_def init_def handle_line_def strip_STOP)
  note t = running_never_set_again [of "''rtsp://camera/stream''" "7 / 20 :: real" None 640 ?p stub
        "[Stdin (Line ''CONF:0.5\<newline>''), Iter (Some (frame1, clock0)), Interrupt]"
        frame1 clock0 detector0]
  from t have b: "running (self (run_start True detector0))"
    by (simp add: run_start_def detector0_def)
  from t a have "\<not> running (self (exec stub [Stdin (Line ''CONF:0.5\<newline>''),
        Iter (Some (frame1, clock0)), Interrupt] ?p))"
    by blast
  then show ?thesis using a b by simp
qed

lemma upto_snoc: "0 \<le> n \<Longrightarrow> [1..n + 1] = [1..n] @ [n + 1]"
  by (simp add: upto_rec2)

lemma frame_numbers_finally: "frame_numbers finally_block = []"
  by (simp add: finally_block_def)

lemma frame_numbers_reconnect: "frame_numbers (reconnect s) = []"
  by (simp add: reconnect_def)

lemma frame_numbers_take_reconnect: "frame_numbers (take k (reconnect s)) = []"
proof -
  have "frame_numbers (take k (reconnect s)) @ frame_numbers (drop k (reconnect s))
          = frame_numbers (reconnect s)"
    by (simp add: frame_numbers_append [symmetric])
  then show ?thesis by (simp add: frame_numbers_reconnect)
qed

lemma loop_iter_numbered:
  assumes "numbered p" and "status p = Looping"
  shows "numbered (loop_iter X r p)"
proof (cases "running (self p)")
  case False
  with assms show ?thesis
    by (simp add: loop_iter_def numbered_def frame_numbers_append frame_numbers_finally)
next
  case True
  show ?thesis
  proof (cases r)
    case None
    with True assms show ?thesis
      by (simp add: loop_iter_def numbered_def frame_numbers_append frame_numbers_reconnect)
  next
    case (Some fc)
    obtain fr clk where fc: "fc = (fr, clk)" by (cases fc)
    obtain res s' where pf: "process_frame X fr clk (self p) = (res, s')"
      by (cases "process_frame X fr clk (self p)")
    show ?thesis
    proof (cases res)
      case (Inl e)
      with pf process_frame_count_err [of X fr clk "self p" e s'] True assms Some fc
      show ?thesis
        by (simp add: loop_iter_def numbered_def frame_numbers_append frame_numbers_finally)
    next
      case (Inr ev)
      let ?k = "int (length (frame_numbers (out p)))"
      from assms have k: "frame_numbers (out p) = [1..?k]" "frame_count (self p) = ?k"
        by (simp_all add: numbered_def)
      from pf Inr process_frame_count_ok [of X fr clk "self p" ev s']
      have c: "frame_count s' = ?k + 1" "frame ev = ?k + 1"
        using k(2) by simp_all
      have l: "loop_iter X r p = p\<lparr>self := s', out := out p @ [Emit (FrameEvent ev)]\<rparr>"
        using True Some fc pf Inr by (simp add: loop_iter_def)
      have "[1..?k + 1] = [1..?k] @ [?k + 1]"
        by (rule upto_snoc) simp
      with k(1) c(2) have "frame_numbers (out p) @ [frame ev] = [1..?k + 1]"
        by simp
      moreover have "int (length (frame_numbers (out p) @ [frame ev])) = ?k + 1"
        by simp
      ultimately show ?thesis
        using c(1) assms(2) by (simp add: l numbered_def frame_numbers_append)
    qed
  qed
qed

lemma step_numbered: "numbered p \<Longrightarrow> numbered (step X a p)"
proof (cases "status p = Looping")
  case False
  assume "numbered p"
  with False show ?thesis by (cases a) simp_all
next
  case True
  assume n: "numbered p"
  show ?thesis
  proof (cases a)
    case (Stdin r)
    with True n show ?thesis
      using listen_step_frame_count [of X r "self p"]
      by (cases "listen_step X r (self p)") (auto simp: numbered_def)
  next
    case (Iter r)
    with True n show ?thesis by (simp add: loop_iter_numbered)
  next
    case Interrupt
    with True n show ?thesis
      by (simp add: numbered_def frame_numbers_append frame_numbers_finally)
  next
    case (InterruptIn r k)
    show ?thesis
    proof (cases "running (self p)")
      case False
      with InterruptIn True n show ?thesis
        by (simp add: numbered_def frame_numbers_append frame_numbers_finally)
    next
      case run: True
      show ?thesis
      proof (cases r)
        case None
        with run InterruptIn True n show ?thesis
          by (simp add: numbered_def frame_numbers_append frame_numbers_finally
              frame_numbers_take_reconnect)
      next
        case (Some fc)
        obtain fr clk where fc: "fc = (fr, clk)" by (cases fc)
        from interrupted_frame_keeps [of X fr clk "self p" k]
        show ?thesis
          using Some fc run InterruptIn True n
          by (auto simp: numbered_def frame_numbers_append frame_numbers_finally)
      qed
    qed
  qed
qed

lemma exec_numbered: "numbered p \<Longrightarrow> numbered (exec X acts p)"
  by (induction acts arbitrary: p) (simp_all add: step_numbered)

lemma run_start_numbered: "numbered (run_start opened (init url c classes sz))"
  by (simp add: numbered_def run_start_def init_def)

text \<open>
  Claim C6. In every state \<open>q\<close> reached from the start of \<open>run\<close> by commands, reads,
  failed reads, failing frames and interrupts, the frame events emitted so far carry
  the numbers \<open>1, 2, \<dots>\<close> in this order without a gap, and while the loop runs the
  counter is their number. A frame that \<open>process_frame\<close> processes gets the counter
  plus one as its number, moves the counter by one and is emitted; a frame on which
  \<open>process_frame\<close> raises and a failed read with its reconnect leave the counter and
  the numbers emitted as they are.
\<close>

theorem frame_index_sequence:
  "(q = exec X acts (run_start opened (init url c classes sz)) \<longrightarrow>
      frame_numbers (out q) = [1..int (length (frame_numbers (out q)))] \<and>
      (status q = Looping \<longrightarrow> frame_count (self q) = int (length (frame_numbers (out q))))) \<and>
   (status p = Looping \<and> running (self p) \<and>
      process_frame X fr clk (self p) = (Inr ev, s') \<longrightarrow>
      frame ev = frame_count (self p) + 1 \<and> frame_count s' = frame_count (self p) + 1 \<and>
      step X (Iter (Some (fr, clk))) p = p\<lparr>self := s', out := out p @ [Emit (FrameEvent ev)]\<rparr>) \<and>
   (status p = Looping \<and> running (self p) \<and>
      process_frame X fr clk (self p) = (Inl e, s') \<longrightarrow>
      frame_count s' = frame_count (self p) \<and>
      self (step X (Iter (Some (fr, clk))) p) = s' \<and>
      frame_numbers (out (step X (Iter (Some (fr, clk))) p)) = frame_numbers (out p)) \<and>
   (status p = Looping \<and> running (self p) \<longrightarrow>
      self (step X (Iter None) p) = self p \<and>
      frame_numbers (out (step X (Iter None) p)) = frame_numbers (out p))"
proof (intro conjI impI)
  assume q: "q = exec X acts (run_start opened (init url c classes sz))"
  have "numbered (exec X acts (run_start opened (init url c classes sz)))"
    by (rule exec_numbered) (rule run_start_numbered)
  with q have n: "numbered q" by simp
  then show "frame_numbers (out q) = [1..int (length (frame_numbers (out q)))]"
    by (simp add: numbered_def)
  assume "status q = Looping"
  with n show "frame_count (self q) = int (length (frame_numbers (out q)))"
    by (simp add: numbered_def)
next
  assume a: "status p = Looping \<and> running (self p) \<and>
      process_frame X fr clk (self p) = (Inr ev, s')"
  then show "frame ev = frame_count (self p) + 1" "frame_count s' = frame_count (self p) + 1"
    using process_frame_count_ok [of X fr clk "self p" ev s'] by simp_all
  from a show "step X (Iter (Some (fr, clk))) p =
      p\<lparr>self := s', out := out p @ [Emit (FrameEvent ev)]\<rparr>"
    by (simp add: loop_iter_def)
next
  assume a: "status p = Looping \<and> running (self p) \<and>
      process_frame X fr clk (self p) = (Inl e, s')"
  then show "frame_count s' = frame_count (self p)"
    using process_frame_count_err [of X fr clk "self p" e s'] by simp
  from a show "self (step X (Iter (Some (fr, clk))) p) = s'"
    by (simp add: loop_iter_def)
  from a show "frame_numbers (out (step X (Iter (Some (fr, clk))) p)) = frame_numbers (out p)"
    by (simp add: loop_iter_def frame_numbers_append frame_numbers_finally)
next
  assume a: "status p = Looping \<and> running (self p)"
  then show "self (step X (Iter None) p) = self p"
    by (simp add: loop_iter_def)
  from a show "frame_numbers (out (step X (Iter None) p)) = frame_numbers (out p)"
    by (simp add: loop_iter_def frame_numbers_append frame_numbers_reconnect)
qed

text \<open>
  The spec's end-to-end run: three frames, a failed read, and a frame after the
  reconnect. The second run is interrupted in its second pass between the increment
  of the counter and the write of the event.
\<close>

lemma exec_stub_run:
  "frame_numbers (out (exec stub
      [Iter (Some (frame1, clock0)), Iter (Some (frame2, clock0)), Iter (Some (frame1, clock0)),
       Iter None, Iter (Some (frame2, clock0))] (run_start True detector0))) = [1, 2, 3, 4]"
  "frame_count (self (exec stub
      [Iter (Some (frame1, clock0)), Iter (Some (frame2, clock0)), Iter (Some (frame1, clock0)),
       Iter None, Iter (Some (frame2, clock0))] (run_start True detector0))) = 4"
  "status (exec stub
      [Iter (Some (frame1, clock0)), Iter (Some (frame2, clock0)), Iter (Some (frame1, clock0)),
       Iter None, Iter (Some (frame2, clock0))] (run_start True detector0)) = Looping"
  by (simp_all add: run_start_def loop_iter_def reconnect_def
      process_frame_def stub_def detector0_def init_def clock0_def frame1_def frame2_def
      compute_motion_def to_gray_def absdiff_def absdiff8_def np_mean_def
      mk_detection_def py_trunc_def py_round_def round_half_even_def
      update_rate_def inst_rate_def py_div_def Let_def)

lemma exec_stub_interrupted:
  "frame_numbers (out (exec stub
      [Iter (Some (frame1, clock0)), InterruptIn (Some (frame2, clock0)) 3]
      (run_start True detector0))) = [1]"
  "frame_count (self (exec stub
      [Iter (Some (frame1, clock0)), InterruptIn (Some (frame2, clock0)) 3]
      (run_start True detector0))) = 2"
  "status (exec stub
      [Iter (Some (frame1, clock0)), InterruptIn (Some (frame2, clock0)) 3]
      (run_start True detector0)) = Returned"
  by (simp_all add: run_start_def loop_iter_def finally_block_def
      interrupted_frame_def frame_stages_def
      process_frame_def stub_def detector0_def init_def clock0_def frame1_def frame2_def
      compute_motion_def to_gray_def absdiff_def absdiff8_def np_mean_def
      mk_detection_def py_trunc_def py_round_def round_half_even_def
      update_rate_def inst_rate_def py_div_def Let_def)

theorem frame_index_sequence_witness:
  "frame_numbers (out (exec stub
      [Iter (Some (frame1, clock0)), Iter (Some (frame2, clock0)), Iter (Some (frame1, clock0)),
       Iter None, Iter (Some (frame2, clock0))] (run_start True detector0))) = [1, 2, 3, 4] \<and>
   frame_count (self (exec stub
      [Iter (Some (frame1, clock0)), Iter (Some (frame2, clock0)), Iter (Some (frame1, clock0)),
       Iter None, Iter (Some (frame2, clock0))] (run_start True detector0))) = 4 \<and>
   frame_numbers (out (exec stub
      [Iter (Some (frame1, clock0)), InterruptIn (Some (frame2, clock0)) 3]
      (run_start True detector0))) = [1] \<and>
   frame_count (self (exec stub
      [Iter (Some (frame1, clock0)), InterruptIn (Some (frame2, clock0)) 3]
      (run_start True detector0))) = 2"
proof -
  let ?q = "exec stub
      [Iter (Some (frame1, clock0)), Iter (Some (frame2, clock0)), Iter (Some (frame1, clock0)),
       Iter None, Iter (Some (frame2, clock0))] (run_start True detector0)"
  have d: "run_start True detector0 =
      run_start True (init ''rtsp://camera/stream'' (7 / 20) None 640)"
    by (simp add: detector0_def)
  have l: "int (length (frame_numbers (out ?q))) = 4"
    unfolding exec_stub_run(1) by simp
  note t = frame_index_sequence [of ?q stub _ True "''rtsp://camera/stream''" "7 / 20" None 640]
  from t have f1: "frame_numbers (out ?q) = [1..int (length (frame_numbers (out ?q)))]"
    unfolding d by blast
  from t exec_stub_run(3)
  have f2: "frame_count (self ?q) = int (length (frame_numbers (out ?q)))"
    unfolding d by blast
  have u: "[1..4] = [1, 2, 3, 4 :: int]"
    by (simp add: upto_rec1)
  from f1 have g1: "frame_numbers (out ?q) = [1, 2, 3, 4]"
    unfolding l u .
  from f2 have g2: "frame_count (self ?q) = 4"
    unfolding l .
  from g1 g2 exec_stub_interrupted(1,2) show ?thesis
    by (simp only: simp_thms)
qed






lemma step_closed_down: "closed_down p \<Longrightarrow> closed_down (step X a p)"
proof (cases "status p = Looping")
  case False
  assume "closed_down p"
  with False show ?thesis by (cases a) simp_all
next
  case True
  show ?thesis
  proof (cases a)
    case (Stdin r)
    with True show ?thesis
      by (cases "listen_step X r (self p)") (simp_all add: closed_down_def)
  next
    case (Iter r)
    show ?thesis
    proof (cases r)
      case None
      with Iter True show ?thesis
        by (simp add: closed_down_def loop_iter_def finally_block_def)
    next
      case (Some fc)
      obtain fr clk where "fc = (fr, clk)" by (cases fc)
      with Some Iter True show ?thesis
        by (cases "process_frame X fr clk (self p)")
           (auto simp: closed_down_def loop_iter_def finally_block_def split: sum.splits)
    qed
  next
    case Interrupt
    with True show ?thesis by (simp add: closed_down_def finally_block_def)
  next
    case (InterruptIn r k)
    show ?thesis
    proof (cases r)
      case None
      with InterruptIn True show ?thesis
        by (simp add: closed_down_def finally_block_def)
    next
      case (Some fc)
      obtain fr clk where "fc = (fr, clk)" by (cases fc)
      with Some InterruptIn True show ?thesis
        by (simp add: closed_down_def finally_block_def)
    qed
  qed
qed

lemma exec_closed_down: "closed_down p \<Longrightarrow> closed_down (exec X acts p)"
  by (induction acts arbitrary: p) (simp_all add: step_closed_down)

text \<open>
  Claim C10. Whenever the main thread has left the loop, the last two effects are the
  release of the source and the \<open>stopped\<close> event. The three ways out: the flag found
  clear at the head of the loop, a \<open>KeyboardInterrupt\<close>, and an exception of
  \<open>process_frame\<close> (a failing engine among them), after which \<open>run\<close> is left by that
  exception.
\<close>

theorem stopped_emitted_on_exit:
  "(status (exec X acts (run_start True s)) \<noteq> Looping \<longrightarrow>
      (\<exists>pre. out (exec X acts (run_start True s)) = pre @ [Release, Emit StatusStopped])) \<and>
   (status p = Looping \<and> \<not> running (self p) \<longrightarrow>
      step X (Iter r) p = p\<lparr>out := out p @ [Release, Emit StatusStopped], status := Returned\<rparr>) \<and>
   (status p = Looping \<longrightarrow>
      step X Interrupt p = p\<lparr>out := out p @ [Release, Emit StatusStopped], status := Returned\<rparr>) \<and>
   (status p = Looping \<and> running (self p) \<and> process_frame X fr clk (self p) = (Inl e, s') \<longrightarrow>
      step X (Iter (Some (fr, clk))) p =
        p\<lparr>self := s', out := out p @ [Release, Emit StatusStopped], status := Raised e\<rparr>)"
proof (intro conjI impI)
  have "closed_down (run_start True s)"
    by (simp add: closed_down_def run_start_def)
  then have "closed_down (exec X acts (run_start True s))"
    by (rule exec_closed_down)
  moreover assume "status (exec X acts (run_start True s)) \<noteq> Looping"
  ultimately show "\<exists>pre. out (exec X acts (run_start True s)) = pre @ [Release, Emit StatusStopped]"
    by (simp add: closed_down_def)
next
  assume "status p = Looping \<and> \<not> running (self p)"
  then show "step X (Iter r) p = p\<lparr>out := out p @ [Release, Emit StatusStopped], status := Returned\<rparr>"
    by (simp add: loop_iter_def finally_block_def)
next
  assume "status p = Looping"
  then show "step X Interrupt p = p\<lparr>out := out p @ [Release, Emit StatusStopped], status := Returned\<rparr>"
    by (simp add: finally_block_def)
next
  assume "status p = Looping \<and> running (self p) \<and> process_frame X fr clk (self p) = (Inl e, s')"
  then show "step X (Iter (Some (fr, clk))) p =
        p\<lparr>self := s', out := out p @ [Release, Emit StatusStopped], status := Raised e\<rparr>"
    by (simp add: loop_iter_def finally_block_def)
qed

text \<open>An engine that fails on the first frame.\<close>

lemma process_frame_broken:
  "process_frame broken frame1 clock0 detector0 = (Inl PredictError, detector0)"
  by (simp add: process_frame_def broken_def stub_def)

theorem stopped_emitted_on_exit_witness:
  "exec broken [Iter (Some (frame1, clock0))] (run_start True detector0) =
     \<lparr>self = detector0,
      out = [StartListener, OpenCapture ''rtsp://camera/stream'', SetBufferSize 1,
             Release, Emit StatusStopped],
      status = Raised PredictError, listening = True\<rparr>"
proof -
  let ?p = "run_start True detector0"
  have h: "status ?p = Looping" "running (self ?p)" "self ?p = detector0"
    by (simp_all add: run_start_def detector0_def init_def)
  from stopped_emitted_on_exit [of broken "[]" detector0 ?p None frame1 clock0 PredictError detector0]
    h process_frame_broken
  have "step broken (Iter (Some (frame1, clock0))) ?p =
        ?p\<lparr>self := detector0, out := out ?p @ [Release, Emit StatusStopped],
            status := Raised PredictError\<rparr>"
    by simp
  then show ?thesis
    by (simp add: run_start_def detector0_def init_def)
qed

end
